theory Spec2Isabelle
  imports Main
begin

section \<open>Status flags (src/focus/status.aspect.ts)\<close>

text \<open>
  \<open>InStatus.Flags\<close> is an immutable object of three booleans; \<open>defaultFlags\<close> is the
  constant the status tracker starts from.
\<close>

record Flags =
  hasFocus :: bool
  touched :: bool
  edited :: bool

definition defaultFlags :: Flags where
  "defaultFlags = \<lparr>hasFocus = False, touched = False, edited = False\<rparr>"

text \<open>
  \<open>InControlStatus\<close> owns \<open>_flags = trackValue(defaultFlags)\<close>. The tracker is modelled
  by its current value (\<open>flags\<close>, the source's \<open>this._flags.it\<close>) and by the list of
  values it has sent to its receivers (\<open>sent\<close>, oldest first). Every assignment in the
  source stores a freshly built object literal, which is never \<open>===\<close> to the stored one,
  so every assignment sends. \<open>focus_in\<close> and \<open>edit_in\<close> are the latest values of the two
  sources that \<open>afterEventFromAll\<close> combines in \<open>elementFlags\<close>.
\<close>

record InControlStatus =
  flags :: Flags
  sent :: "Flags list"
  focus_in :: bool
  edit_in :: bool

definition set_flags :: "Flags \<Rightarrow> InControlStatus \<Rightarrow> InControlStatus" where
  "set_flags f s = s\<lparr>flags := f, sent := sent s @ [f]\<rparr>"

text \<open>\<open>markTouched(touched = true)\<close>, lines 134-150, branch for branch.\<close>

definition markTouched :: "bool \<Rightarrow> InControlStatus \<Rightarrow> InControlStatus" where
  "markTouched t s =
     (let fl = flags s in
      if \<not> t then
        (if touched fl then set_flags (fl\<lparr>touched := hasFocus fl, edited := False\<rparr>) s
         else s)
      else if \<not> touched fl then set_flags (fl\<lparr>touched := t\<rparr>) s
      else s)"

text \<open>\<open>markEdited(edited = true)\<close>, lines 152-167.\<close>

definition markEdited :: "bool \<Rightarrow> InControlStatus \<Rightarrow> InControlStatus" where
  "markEdited e s =
     (let fl = flags s in
      if e then
        (if \<not> edited fl then set_flags (fl\<lparr>touched := True, edited := e\<rparr>) s
         else s)
      else if edited fl then set_flags (fl\<lparr>edited := e\<rparr>) s
      else s)"

text \<open>
  \<open>updateFlags(flags, hasFocus, edited)\<close>, lines 187-197: \<open>hasFocus\<close> is copied, a
  true \<open>hasFocus\<close> or \<open>edited\<close> also sets \<open>touched\<close>, a false \<open>edited\<close> leaves the
  stored \<open>edited\<close> alone.
\<close>

definition updateFlags :: "Flags \<Rightarrow> bool \<Rightarrow> bool \<Rightarrow> Flags" where
  "updateFlags fl hf ed =
     (let fl1 = (if hf then fl\<lparr>hasFocus := hf, touched := True\<rparr> else fl\<lparr>hasFocus := hf\<rparr>)
      in if ed then fl1\<lparr>edited := ed, touched := True\<rparr> else fl1)"

text \<open>
  \<open>combineFlags(...flags)\<close>, lines 211-236: \<open>itsEach\<close> runs the callback on every
  child's flags in order, mutating \<open>result\<close>; \<open>combine_each\<close> is the callback and the
  loop is a left fold from the all-false \<open>result\<close>.
\<close>

definition combine_each :: "Flags \<Rightarrow> Flags \<Rightarrow> Flags" where
  "combine_each result f =
     (let r1 = (if touched f then result\<lparr>touched := True\<rparr> else result);
          r2 = (if hasFocus f then r1\<lparr>touched := True, hasFocus := True\<rparr> else r1)
      in if edited f then r2\<lparr>touched := True, edited := True\<rparr> else r2)"

definition combineFlags :: "Flags list \<Rightarrow> Flags" where
  "combineFlags fs =
     foldl combine_each \<lparr>hasFocus = False, touched = False, edited = False\<rparr> fs"

text \<open>
  What can happen to a status aspect after its construction. The constructor binds
  \<open>_flags\<close> with \<open>by\<close> either to \<open>elementFlags\<close> or to \<open>containerFlags\<close>:
  \<^item> \<open>FocusEvent\<close>, \<open>EditEvent\<close>: one of the two sources of \<open>elementFlags\<close> sends a
    value; \<open>afterEventFromAll\<close> keeps the latest value of the other source, and the
    \<open>thru\<close> callback stores \<open>updateFlags(origin.it, hasFocus, edited)\<close>, where
    \<open>origin.it\<close> is the tracker's value at that moment;
  \<^item> \<open>ChildrenEvent\<close>: \<open>containerFlags\<close> sends \<open>combineFlags\<close> of the flags of the
    children of the current snapshot (the argument);
  \<^item> \<open>MarkTouched\<close>, \<open>MarkEdited\<close>: a caller uses one of the two mutators.
  One step function takes all five, so the runs below include every run of an element
  status and every run of a container status.
\<close>

datatype StatusEvent =
    FocusEvent bool
  | EditEvent bool
  | MarkTouched bool
  | MarkEdited bool
  | ChildrenEvent "Flags list"

fun status_step :: "InControlStatus \<Rightarrow> StatusEvent \<Rightarrow> InControlStatus" where
  "status_step s (FocusEvent hf) =
     set_flags (updateFlags (flags s) hf (edit_in s)) (s\<lparr>focus_in := hf\<rparr>)"
| "status_step s (EditEvent ed) =
     set_flags (updateFlags (flags s) (focus_in s) ed) (s\<lparr>edit_in := ed\<rparr>)"
| "status_step s (MarkTouched t) = markTouched t s"
| "status_step s (MarkEdited e) = markEdited e s"
| "status_step s (ChildrenEvent fs) = set_flags (combineFlags fs) s"

definition new_InControlStatus :: InControlStatus where
  "new_InControlStatus =
     \<lparr>flags = defaultFlags, sent = [], focus_in = False, edit_in = False\<rparr>"

definition status_run :: "StatusEvent list \<Rightarrow> InControlStatus" where
  "status_run evs = foldl status_step new_InControlStatus evs"

text \<open>The two invariants of a flags value, as one boolean function.\<close>

definition flags_ok :: "Flags \<Rightarrow> bool" where
  "flags_ok f = (touched f \<or> (\<not> edited f \<and> \<not> hasFocus f))"

definition status_ok :: "InControlStatus \<Rightarrow> bool" where
  "status_ok s = (flags_ok (flags s) \<and> list_all flags_ok (sent s))"

subsection \<open>Container status\<close>

text \<open>
  \<open>containerFlags\<close>, lines 199-205, follows the container's snapshots: for every
  snapshot \<open>dig_\<close> replaces the stream it listens to by \<open>afterEventFromEach\<close> of the
  status aspects of that snapshot's controls (\<open>controlStatuses\<close>), which sends the
  latest flags of every one of them whenever one of them sends, and \<open>thru\<close> combines
  what it sends with \<open>combineFlags\<close>. A snapshot is modelled as the list of the current
  child controls, each given by its identity and the current flags of its status
  aspect.
\<close>

type_synonym Snapshot = "(nat \<times> Flags) list"

definition controlStatuses :: "Snapshot \<Rightarrow> Flags list" where
  "controlStatuses snapshot = map snd snapshot"

definition containerFlags :: "Snapshot \<Rightarrow> Flags" where
  "containerFlags snapshot = combineFlags (controlStatuses snapshot)"

text \<open>
  The events \<open>containerFlags\<close> reacts to: a control is put into the container (a new
  one, or one that replaces the control of the same identity), a control is removed,
  or the status aspect of a control sends new flags. Each of them makes
  \<open>containerFlags\<close> send, and the container's status tracker, bound to it with \<open>by\<close>,
  stores what it sends.
\<close>

datatype ContainerEvent =
    SetControl nat Flags
  | RemoveControl nat
  | StatusSent nat Flags

fun snapshot_step :: "Snapshot \<Rightarrow> ContainerEvent \<Rightarrow> Snapshot" where
  "snapshot_step cs (SetControl k f) = filter (\<lambda>p. fst p \<noteq> k) cs @ [(k, f)]"
| "snapshot_step cs (RemoveControl k) = filter (\<lambda>p. fst p \<noteq> k) cs"
| "snapshot_step cs (StatusSent k f) = map (\<lambda>p. if fst p = k then (k, f) else p) cs"

definition container_step ::
  "Snapshot \<times> InControlStatus \<Rightarrow> ContainerEvent \<Rightarrow> Snapshot \<times> InControlStatus" where
  "container_step cs_s ev =
     (let cs' = snapshot_step (fst cs_s) ev
      in (cs', set_flags (containerFlags cs') (snd cs_s)))"

text \<open>
  The container's status is an \<open>InControlStatus\<close> like any other: besides the
  aggregation, a caller can use \<open>markTouched\<close> and \<open>markEdited\<close> on it, which write
  \<open>_flags\<close> directly and leave the children alone. \<open>children_after\<close> is the child
  collection after a sequence of calls: only the container's events change it.
\<close>

datatype ContainerCall =
    FromContainer ContainerEvent
  | CallMarkTouched bool
  | CallMarkEdited bool

fun container_call ::
  "Snapshot \<times> InControlStatus \<Rightarrow> ContainerCall \<Rightarrow> Snapshot \<times> InControlStatus" where
  "container_call cs_s (FromContainer ev) = container_step cs_s ev"
| "container_call cs_s (CallMarkTouched t) = (fst cs_s, markTouched t (snd cs_s))"
| "container_call cs_s (CallMarkEdited e) = (fst cs_s, markEdited e (snd cs_s))"

definition container_run ::
  "Snapshot \<times> InControlStatus \<Rightarrow> ContainerCall list \<Rightarrow> Snapshot \<times> InControlStatus" where
  "container_run cs_s calls = foldl container_call cs_s calls"

fun children_after :: "Snapshot \<Rightarrow> ContainerCall list \<Rightarrow> Snapshot" where
  "children_after cs [] = cs"
| "children_after cs (FromContainer ev # calls) = children_after (snapshot_step cs ev) calls"
| "children_after cs (CallMarkTouched t # calls) = children_after cs calls"
| "children_after cs (CallMarkEdited e # calls) = children_after cs calls"

section \<open>Data aspect (src/data/data.aspect.ts)\<close>








text \<open>Object-typed values for the examples: numbers, strings, objects with fields.\<close>

datatype jsval = JNum int | JStr string | JObj "(string \<times> jsval) list"

section \<open>Aspect cache (src/control.ts, InControl)\<close>

text \<open>
  \<open>InAspect.Applied\<close> is the object an application returns; \<open>aspect()\<close> hands out its
  \<open>instance\<close> (here \<open>inst\<close>). An instance is \<open>null\<close> (\<open>None\<close>) or an object, given by the
  address it was allocated at and its content, so that \<open>===\<close> on instances is equality:
  two objects built by two applications have different addresses.

  A control owns the map \<open>_aspects\<close> (here \<open>aspects\<close>). \<open>allocated\<close> counts the instances
  built so far for the control and gives the next address; \<open>applyTo_calls\<close> lists the
  keys whose \<open>applyTo\<close> was invoked on this control, in order.
\<close>

record 'i Applied =
  inst :: "(nat \<times> 'i) option"

record ('k, 'i) InControl =
  aspects :: "'k \<rightharpoonup> 'i Applied"
  allocated :: nat
  applyTo_calls :: "'k list"

definition new_InControl :: "('k, 'i) InControl" where
  "new_InControl = \<lparr>aspects = Map.empty, allocated = 0, applyTo_calls = []\<rparr>"

text \<open>
  An application builds its instance: nothing for \<open>null\<close>, a new object at the next
  address otherwise. The applied object wraps it and is an object in both cases.
  \<open>store\<close> is \<open>this._aspects.set(aspect, applied)\<close>.
\<close>

definition alloc :: "'i option \<Rightarrow> ('k, 'i) InControl \<Rightarrow> 'i Applied \<times> ('k, 'i) InControl" where
  "alloc built c =
     (case built of
        None \<Rightarrow> (\<lparr>inst = None\<rparr>, c)
      | Some x \<Rightarrow> (\<lparr>inst = Some (allocated c, x)\<rparr>, c\<lparr>allocated := Suc (allocated c)\<rparr>))"

definition store ::
  "'k \<Rightarrow> 'i Applied \<times> ('k, 'i) InControl \<Rightarrow> 'i Applied \<times> ('k, 'i) InControl" where
  "store k ac = (fst ac, (snd ac)\<lparr>aspects := (aspects (snd ac))(k \<mapsto> fst ac)\<rparr>)"

text \<open>
  What the code around \<open>_aspect\<close> does for a key:
  \<^item> \<open>applyAspect\<close>: the control's hook \<open>_applyAspect\<close>; it returns \<open>undefined\<close> (\<open>None\<close>) in
    \<open>InControl\<close>, and may return an applied object, given by the content of its
    instance, in a subclass such as \<open>InConverted\<close>;
  \<^item> \<open>looks_up\<close>: the aspects that the key's \<open>applyTo\<close> looks up on the control it is
    applied to, in order, while it runs (the constructor of the status aspect calls
    \<open>control.aspect\<close> for \<open>InContainer\<close>, \<open>InElement\<close> and \<open>InFocus\<close>, the focus aspect for
    \<open>InElement\<close>, the data aspect for \<open>InMode\<close>);
  \<^item> \<open>applyTo\<close>: the content of the instance that \<open>applyTo\<close> builds, or \<open>None\<close> for
    \<open>null\<close>.
\<close>

record ('k, 'i) Aspects =
  applyAspect :: "'k \<Rightarrow> 'i option option"
  looks_up :: "'k \<Rightarrow> 'k list"
  applyTo :: "'k \<Rightarrow> 'i option"

text \<open>
  \<open>_aspect(aspect)\<close>, lines 130-145. \<open>existing\<close> is an applied object or \<open>undefined\<close>,
  so \<open>if (existing)\<close> is the test for a hit. On a miss,
  \<open>this._applyAspect(aspect) || aspect.applyTo(this)\<close>: the hook first, and the key's
  \<open>applyTo\<close> only when the hook declines; \<open>applyTo\<close> runs its own lookups on the control
  (\<open>applyTo_lookups\<close>) before it returns, that is before the result is stored. The
  nesting of lookups is bounded by fuel; lookups that never return (a key that looks
  itself up, directly or through others) give \<open>None\<close> for every fuel.
\<close>

fun InControl__aspect ::
    "nat \<Rightarrow> ('k, 'i) Aspects \<Rightarrow> 'k \<Rightarrow> ('k, 'i) InControl
       \<Rightarrow> ('i Applied \<times> ('k, 'i) InControl) option"
  and applyTo_lookups ::
    "nat \<Rightarrow> ('k, 'i) Aspects \<Rightarrow> 'k list \<Rightarrow> ('k, 'i) InControl \<Rightarrow> ('k, 'i) InControl option"
where
  "InControl__aspect 0 A k c = None"
| "InControl__aspect (Suc n) A k c =
     (case aspects c k of
        Some existing \<Rightarrow> Some (existing, c)
      | None \<Rightarrow>
          (case applyAspect A k of
             Some built \<Rightarrow> Some (store k (alloc built c))
           | None \<Rightarrow>
               (case applyTo_lookups n A (looks_up A k)
                       (c\<lparr>applyTo_calls := applyTo_calls c @ [k]\<rparr>) of
                  None \<Rightarrow> None
                | Some c1 \<Rightarrow> Some (store k (alloc (applyTo A k) c1)))))"
| "applyTo_lookups n A [] c = Some c"
| "applyTo_lookups n A (d # ds) c =
     (case InControl__aspect n A d c of
        None \<Rightarrow> None
      | Some r \<Rightarrow> applyTo_lookups n A ds (snd r))"

text \<open>\<open>aspect(aspectKey)\<close>, lines 39-43: the instance of the applied aspect.\<close>

definition aspect ::
  "nat \<Rightarrow> ('k, 'i) Aspects \<Rightarrow> 'k \<Rightarrow> ('k, 'i) InControl
     \<Rightarrow> ((nat \<times> 'i) option \<times> ('k, 'i) InControl) option" where
  "aspect n A k c = map_option (\<lambda>r. (inst (fst r), snd r)) (InControl__aspect n A k c)"

text \<open>A sequence of lookups by callers, with the instance each of them returns.\<close>

fun aspect_calls ::
  "nat \<Rightarrow> ('k, 'i) Aspects \<Rightarrow> 'k list \<Rightarrow> ('k, 'i) InControl
     \<Rightarrow> ((nat \<times> 'i) option list \<times> ('k, 'i) InControl) option" where
  "aspect_calls n A [] c = Some ([], c)"
| "aspect_calls n A (k # ks) c =
     (case aspect n A k c of
        None \<Rightarrow> None
      | Some r \<Rightarrow>
          (case aspect_calls n A ks (snd r) of
             None \<Rightarrow> None
           | Some rs \<Rightarrow> Some (fst r # fst rs, snd rs)))"

text \<open>
  The invariant of the cache while the applications of the keys in \<open>P\<close> are running:
  no key was applied twice, every applied key is stored or still running, and no
  running key is stored yet. \<open>well_founded\<close> says that the lookups of the keys do not
  go in circles: every key looks up keys of lower rank only.
\<close>

definition cache_ok :: "'k set \<Rightarrow> ('k, 'i) InControl \<Rightarrow> bool" where
  "cache_ok P c =
     (distinct (applyTo_calls c) \<and> set (applyTo_calls c) \<subseteq> dom (aspects c) \<union> P
      \<and> P \<inter> dom (aspects c) = {})"

definition well_founded :: "('k, 'i) Aspects \<Rightarrow> ('k \<Rightarrow> nat) \<Rightarrow> bool" where
  "well_founded A rank = (\<forall>k. \<forall>d \<in> set (looks_up A k). rank d < rank k)"

text \<open>
  The aspects of the sources on a control that is neither an element nor a
  container, keys by name: the container, element and focus aspects are \<open>null\<close>.
\<close>

definition plain_control :: "(string, string) Aspects" where
  "plain_control =
     \<lparr>applyAspect = (\<lambda>k. None),
      looks_up = (\<lambda>k. if k = ''status'' then [''container'', ''element'', ''focus'']
                      else if k = ''focus'' then [''element'']
                      else if k = ''data'' then [''mode''] else []),
      applyTo = (\<lambda>k. if k = ''container'' \<or> k = ''element'' \<or> k = ''focus''
                     then None else Some k)\<rparr>"

definition plain_rank :: "string \<Rightarrow> nat" where
  "plain_rank k = (if k = ''status'' then 2 else if k = ''focus'' \<or> k = ''data'' then 1 else 0)"

section \<open>Converted control (src/control.ts, InConverted)\<close>

text \<open>
  The constructor of \<open>InConverted\<close> (lines 257-316) closes over \<open>lastRev\<close> and
  \<open>backward\<close> and registers three receivers. Its state and the state of the source
  are one record:
  \<^item> \<open>src_it\<close>: the value of the source control, \<open>src.it\<close>;
  \<^item> \<open>it\<close>: the value of the tracker \<open>this._it\<close>, the pair \<open>[value, rev]\<close>;
  \<^item> \<open>lastRev\<close> and \<open>backward\<close>: the two variables of the closure;
  \<^item> \<open>events\<close>: what happened, oldest first, to count it.
  \<open>backward\<close> has the type \<open>From | undefined\<close> and is compared with the source's value by
  \<open>!==\<close>, so a value of the source is a value of that type too: \<open>None\<close> is \<open>undefined\<close>,
  which a source of type \<open>InControl<number | undefined>\<close> can hold, and the conversion
  functions take and return such values. \<open>!==\<close> is inequality (on every value but
  \<open>NaN\<close>, which is left out). A conversion function either returns or throws.
\<close>

datatype 'e outcome = Returned | Thrown 'e | OutOfFuel

record ('a, 'b, 'e) Converters =
  set_cv :: "'a option \<Rightarrow> 'e + 'b"
  get_cv :: "'b \<Rightarrow> 'e + 'a option"

text \<open>
  The source is a control of its own and has other receivers besides the one this
  converted control registers: a second control converted from it, whose \<open>set\<close> may
  throw, is one. \<open>src_later\<close> is what the receivers registered on the source after this
  control's do with a value the source sends: they return (\<open>None\<close>) or one of them
  throws. The sender does not catch, so the exception leaves \<open>src.it = v\<close>.
\<close>

record ('a, 'b, 'e) Conversion = "('a, 'b, 'e) Converters" +
  src_later :: "'a option \<Rightarrow> 'e option"

datatype ('a, 'b) SyncEvent =
    SrcSent "'a option" "'a option"
  | ItAssigned 'b nat
  | OnSent 'b 'b
  | SrcAssigned "'a option"

record ('a, 'b) InConverted =
  src_it :: "'a option"
  it :: "'b \<times> nat"
  lastRev :: nat
  backward :: "'a option"
  events :: "('a, 'b) SyncEvent list"

text \<open>
  The four functions call each other as the setters and receivers of the source do:
  \<^item> \<open>src_set_it\<close> is \<open>src.it = v\<close> on a source that is a tracked value: it stores and
    sends \<open>(v, old)\<close> when \<open>v !== old\<close>, and does nothing otherwise (the event
    \<open>SrcSent\<close>); its receivers are called in the order of their registration, this
    control's \<open>src_on\<close> and then the later ones, and a receiver that throws ends the
    sending;
  \<^item> \<open>src_on\<close> is the receiver registered with \<open>src.on\<close>, lines 290-294; in
    \<open>[converters.set(value), ++lastRev]\<close> the conversion runs before the increment;
  \<^item> \<open>it_set_it\<close> is \<open>this._it.it = [value, rev]\<close>: the pair is a new array, so the
    tracker always stores it (\<open>ItAssigned\<close>) and calls its receivers in the order of
    their registration: first the one of lines 285-289, which sends \<open>(newValue,
    oldValue)\<close> on \<open>on\<close> when the two differ (\<open>OnSent\<close>), then \<open>it_on\<close>;
  \<^item> \<open>it_on\<close> is the receiver of lines 295-305: \<open>lastRev = rev\<close>, then \<open>get\<close>, then
    \<open>src.it = backward\<close> (\<open>SrcAssigned\<close>) inside \<open>try\<close>, and \<open>backward = undefined\<close> in
    \<open>finally\<close>, whatever the assignment did.
  A thrown exception leaves the state as it is at that point and is passed up to the
  caller. The recursion through the receivers is bounded by fuel, spent by the two
  setters; \<open>edit_total\<close> below shows that two units are enough for any edit.
\<close>

fun src_set_it ::
    "nat \<Rightarrow> ('a, 'b, 'e) Conversion \<Rightarrow> 'a option \<Rightarrow> ('a, 'b) InConverted
      \<Rightarrow> ('a, 'b) InConverted \<times> 'e outcome"
  and src_on ::
    "nat \<Rightarrow> ('a, 'b, 'e) Conversion \<Rightarrow> 'a option \<Rightarrow> ('a, 'b) InConverted
      \<Rightarrow> ('a, 'b) InConverted \<times> 'e outcome"
  and it_set_it ::
    "nat \<Rightarrow> ('a, 'b, 'e) Conversion \<Rightarrow> 'b \<times> nat \<Rightarrow> ('a, 'b) InConverted
      \<Rightarrow> ('a, 'b) InConverted \<times> 'e outcome"
  and it_on ::
    "nat \<Rightarrow> ('a, 'b, 'e) Conversion \<Rightarrow> 'b \<times> nat \<Rightarrow> ('a, 'b) InConverted
      \<Rightarrow> ('a, 'b) InConverted \<times> 'e outcome"
where
  "src_set_it 0 cv v s = (s, OutOfFuel)"
| "src_set_it (Suc n) cv v s =
     (if v \<noteq> src_it s
      then (let r = src_on n cv v
                      (s\<lparr>src_it := v, events := events s @ [SrcSent v (src_it s)]\<rparr>)
            in case snd r of
                 Returned \<Rightarrow>
                   (case src_later cv v of None \<Rightarrow> r | Some e \<Rightarrow> (fst r, Thrown e))
               | Thrown e \<Rightarrow> r
               | OutOfFuel \<Rightarrow> r)
      else (s, Returned))"
| "src_on n cv v s =
     (if v \<noteq> backward s
      then (case set_cv cv v of
              Inl e \<Rightarrow> (s, Thrown e)
            | Inr w \<Rightarrow> it_set_it n cv (w, Suc (lastRev s)) (s\<lparr>lastRev := Suc (lastRev s)\<rparr>))
      else (s, Returned))"
| "it_set_it 0 cv vr s = (s, OutOfFuel)"
| "it_set_it (Suc n) cv vr s =
     (let oldValue = fst (it s);
          s1 = s\<lparr>it := vr, events := events s @ [ItAssigned (fst vr) (snd vr)]\<rparr>;
          s2 = (if fst vr \<noteq> oldValue
                then s1\<lparr>events := events s1 @ [OnSent (fst vr) oldValue]\<rparr> else s1)
      in it_on n cv vr s2)"
| "it_on n cv vr s =
     (if snd vr \<noteq> lastRev s
      then (let s1 = s\<lparr>lastRev := snd vr\<rparr>
            in case get_cv cv (fst vr) of
                 Inl e \<Rightarrow> (s1, Thrown e)
               | Inr b \<Rightarrow>
                   (let r = src_set_it n cv b
                              (s1\<lparr>backward := b, events := events s1 @ [SrcAssigned b]\<rparr>)
                    in ((fst r)\<lparr>backward := None\<rparr>, snd r)))
      else (s, Returned))"

text \<open>The setter \<open>set it(value)\<close> of the converted control, lines 322-329.\<close>

definition InConverted_set_it ::
  "nat \<Rightarrow> ('a, 'b, 'e) Conversion \<Rightarrow> 'b \<Rightarrow> ('a, 'b) InConverted
     \<Rightarrow> ('a, 'b) InConverted \<times> 'e outcome" where
  "InConverted_set_it n cv v s =
     (let prevValue = fst (it s); prevRev = snd (it s)
      in if v \<noteq> prevValue then it_set_it n cv (v, prevRev + 1) s else (s, Returned))"

text \<open>
  The state the constructor leaves: \<open>this._it = trackValue([converters.set(src.it),
  0])\<close>, \<open>lastRev = 0\<close>, \<open>backward\<close> undefined.
\<close>

definition new_InConverted ::
  "('a, 'b, 'e) Conversion \<Rightarrow> 'a option \<Rightarrow> 'e + ('a, 'b) InConverted" where
  "new_InConverted cv v =
     (case set_cv cv v of
        Inl e \<Rightarrow> Inl e
      | Inr w \<Rightarrow> Inr \<lparr>src_it = v, it = (w, 0), lastRev = 0, backward = None, events = []\<rparr>)"

text \<open>
  An edit is a write by a caller to one of the two controls. Between edits no
  backward value is in flight and the revision of \<open>_it\<close> is \<open>lastRev\<close>.
\<close>

datatype ('a, 'b) Edit = WriteSource "'a option" | WriteConverted 'b

fun edit ::
  "nat \<Rightarrow> ('a, 'b, 'e) Conversion \<Rightarrow> ('a, 'b) Edit \<Rightarrow> ('a, 'b) InConverted
     \<Rightarrow> ('a, 'b) InConverted \<times> 'e outcome" where
  "edit n cv (WriteSource v) s = src_set_it n cv v s"
| "edit n cv (WriteConverted w) s = InConverted_set_it n cv w s"

definition quiescent :: "('a, 'b) InConverted \<Rightarrow> bool" where
  "quiescent s = (backward s = None \<and> snd (it s) = lastRev s)"

text \<open>An event of \<open>on\<close> that reports a change: its two values differ.\<close>

fun is_change :: "('a, 'b) SyncEvent \<Rightarrow> bool" where
  "is_change (OnSent new old) = (new \<noteq> old)"
| "is_change (SrcSent new old) = True"
| "is_change (ItAssigned v r) = True"
| "is_change (SrcAssigned v) = True"

fun is_OnSent :: "('a, 'b) SyncEvent \<Rightarrow> bool" where
  "is_OnSent (OnSent new old) = True"
| "is_OnSent (SrcSent new old) = False"
| "is_OnSent (ItAssigned v r) = False"
| "is_OnSent (SrcAssigned v) = False"

text \<open>
  The converters of the specification's example, \<open>set = x => x + 1\<close> and
  \<open>get = y => y - 1\<close>, on a source of type \<open>number | undefined\<close> (\<open>undefined + 1\<close> is
  \<open>NaN\<close> in the source's language; any number does here, \<open>-1\<close> is taken), and a pair
  that throws on zero, on a source with a later receiver that throws on 41.
\<close>

definition plus_one :: "(int, int, string) Conversion" where
  "plus_one =
     \<lparr>set_cv = (\<lambda>x. case x of None \<Rightarrow> Inr (- 1) | Some n \<Rightarrow> Inr (n + 1)),
      get_cv = (\<lambda>y. Inr (Some (y - 1))),
      src_later = (\<lambda>v. None)\<rparr>"

definition throwing :: "(int, int, string) Conversion" where
  "throwing =
     \<lparr>set_cv = (\<lambda>x. case x of None \<Rightarrow> Inr (- 1)
                   | Some n \<Rightarrow> if n = 0 then Inl ''set failed'' else Inr (n + 1)),
      get_cv = (\<lambda>y. if y = 0 then Inl ''get failed'' else Inr (Some (y - 1))),
      src_later = (\<lambda>v. if v = Some 41 then Some ''receiver failed'' else None)\<rparr>"

section \<open>Termination (src/control.ts, lines 284-294 and 331-334)\<close>

text \<open>
  A stream of events ends when \<open>done(reason)\<close> is called on its emitter or tracker:
  the receivers registered on it are removed and the \<open>whenDone\<close> callbacks of their
  registrations are called with the reason; a stream that has ended has no receivers
  left, so ending it again calls nothing. A stream is given by the list of reasons it
  has ended with, empty while it is live.

  A converted control has two streams, the tracker \<open>_it\<close> and the emitter \<open>on\<close>, and
  registers
  \<^item> on \<open>_it\<close>: a receiver with \<open>whenDone(reason => on.done(reason))\<close>, line 289;
  \<^item> on its source: a receiver with \<open>whenDone(reason => this.done(reason))\<close>, line 294,
  and \<open>done(reason)\<close> is \<open>this._it.done(reason)\<close>. The controls converted from a
  converted control are registered on its \<open>on\<close>; they are the third component.
\<close>

datatype 'r ConvertedLife =
  ConvertedLife (it_done: "'r list") (on_done: "'r list") (converted_from: "'r ConvertedLife list")

fun InConverted_done :: "'r \<Rightarrow> 'r ConvertedLife \<Rightarrow> 'r ConvertedLife" where
  "InConverted_done reason (ConvertedLife itd ond cs) =
     (if itd = []
      then (if ond = []
            then ConvertedLife [reason] [reason] (map (InConverted_done reason) cs)
            else ConvertedLife [reason] ond cs)
      else ConvertedLife itd ond cs)"

text \<open>
  A source control that is a plain value (neither an element nor a container), the
  controls converted from it, and its status aspect. The constructor of
  \<open>InControlStatus\<close> (status.aspect.ts, lines 119-132) looks up the control's
  \<open>InContainer\<close>, \<open>InElement\<close> and \<open>InFocus\<close> aspects, which are absent for such a control,
  binds its tracker \<open>_flags\<close> to \<open>afterEventFromAll\<close> of two constants, and registers
  nothing on the control: \<open>status_done\<close>, the stream of \<open>_flags\<close>, is reached by no
  callback of the control.
\<close>

record 'r Lifecycle =
  src_done :: "'r list"
  converted :: "'r ConvertedLife list"
  status_done :: "'r list"

definition control_done :: "'r \<Rightarrow> 'r Lifecycle \<Rightarrow> 'r Lifecycle" where
  "control_done reason w =
     (if src_done w = []
      then w\<lparr>src_done := [reason], converted := map (InConverted_done reason) (converted w)\<rparr>
      else w)"

definition converted_done :: "nat \<Rightarrow> 'r \<Rightarrow> 'r Lifecycle \<Rightarrow> 'r Lifecycle" where
  "converted_done i reason w =
     (if i < length (converted w)
      then w\<lparr>converted := (converted w)[i := InConverted_done reason (converted w ! i)]\<rparr>
      else w)"

fun live :: "'r ConvertedLife \<Rightarrow> bool" where
  "live (ConvertedLife itd ond cs) = (itd = [] \<and> ond = [] \<and> list_all live cs)"

fun ended_with :: "'r \<Rightarrow> 'r ConvertedLife \<Rightarrow> bool" where
  "ended_with reason (ConvertedLife itd ond cs) =
     (itd = [reason] \<and> ond = [reason] \<and> list_all (ended_with reason) cs)"

section \<open>Properties of the status mutators\<close>

text \<open>
  C5. \<open>markTouched(false)\<close> on touched flags sets \<open>touched\<close> to the current \<open>hasFocus\<close>
  and \<open>edited\<close> to false; \<open>markTouched(true)\<close> on untouched flags sets \<open>touched\<close> and
  leaves \<open>hasFocus\<close> and \<open>edited\<close> as they were; each of the two sends exactly one new
  flags value. In the two remaining cases nothing changes and nothing is sent, so a
  second \<open>markTouched(true)\<close> (and a second \<open>markTouched(false)\<close> without focus) is a
  no-op: two calls in a row send at most one value.
\<close>

theorem markTouched_spec:
  "(touched (flags s) \<longrightarrow>
      flags (markTouched False s)
        = \<lparr>hasFocus = hasFocus (flags s), touched = hasFocus (flags s), edited = False\<rparr>
      \<and> sent (markTouched False s) = sent s @ [flags (markTouched False s)]
      \<and> markTouched True s = s)
   \<and> (\<not> touched (flags s) \<longrightarrow>
      flags (markTouched True s)
        = \<lparr>hasFocus = hasFocus (flags s), touched = True, edited = edited (flags s)\<rparr>
      \<and> sent (markTouched True s) = sent s @ [flags (markTouched True s)]
      \<and> markTouched False s = s)
   \<and> focus_in (markTouched t s) = focus_in s
   \<and> edit_in (markTouched t s) = edit_in s
   \<and> markTouched True (markTouched True s) = markTouched True s
   \<and> length (sent (markTouched True (markTouched True s))) \<le> Suc (length (sent s))"
  by (cases "flags s") (simp add: markTouched_def set_flags_def Let_def)

theorem markTouched_spec_witness:
  "flags (markTouched False
      \<lparr>flags = \<lparr>hasFocus = True, touched = True, edited = True\<rparr>, sent = [],
       focus_in = True, edit_in = True\<rparr>)
     = \<lparr>hasFocus = True, touched = True, edited = False\<rparr>
   \<and> flags (markTouched True
      \<lparr>flags = \<lparr>hasFocus = False, touched = False, edited = False\<rparr>, sent = [],
       focus_in = False, edit_in = False\<rparr>)
     = \<lparr>hasFocus = False, touched = True, edited = False\<rparr>"
  using markTouched_spec [of "\<lparr>flags = \<lparr>hasFocus = True, touched = True, edited = True\<rparr>,
          sent = [], focus_in = True, edit_in = True\<rparr>" False]
        markTouched_spec [of "\<lparr>flags = \<lparr>hasFocus = False, touched = False, edited = False\<rparr>,
          sent = [], focus_in = False, edit_in = False\<rparr>" True]
  by simp

text \<open>
  C6. \<open>markEdited(true)\<close> on flags that are not edited sets both \<open>edited\<close> and
  \<open>touched\<close>; \<open>markEdited(false)\<close> on edited flags clears \<open>edited\<close> only, \<open>touched\<close> and
  \<open>hasFocus\<close> stay; when the flags already are in the requested state the status is
  returned as it is and nothing is sent.
\<close>

theorem markEdited_spec:
  "(\<not> edited (flags s) \<longrightarrow>
      flags (markEdited True s)
        = \<lparr>hasFocus = hasFocus (flags s), touched = True, edited = True\<rparr>
      \<and> sent (markEdited True s) = sent s @ [flags (markEdited True s)]
      \<and> markEdited False s = s)
   \<and> (edited (flags s) \<longrightarrow>
      flags (markEdited False s)
        = \<lparr>hasFocus = hasFocus (flags s), touched = touched (flags s), edited = False\<rparr>
      \<and> sent (markEdited False s) = sent s @ [flags (markEdited False s)]
      \<and> markEdited True s = s)
   \<and> focus_in (markEdited e s) = focus_in s
   \<and> edit_in (markEdited e s) = edit_in s
   \<and> markEdited e (markEdited e s) = markEdited e s"
  by (cases "flags s") (simp add: markEdited_def set_flags_def Let_def)

theorem markEdited_spec_witness:
  "flags (markEdited True
      \<lparr>flags = \<lparr>hasFocus = False, touched = False, edited = False\<rparr>, sent = [],
       focus_in = False, edit_in = False\<rparr>)
     = \<lparr>hasFocus = False, touched = True, edited = True\<rparr>
   \<and> flags (markEdited False
      \<lparr>flags = \<lparr>hasFocus = True, touched = True, edited = True\<rparr>, sent = [],
       focus_in = True, edit_in = True\<rparr>)
     = \<lparr>hasFocus = True, touched = True, edited = False\<rparr>"
  using markEdited_spec [of "\<lparr>flags = \<lparr>hasFocus = False, touched = False, edited = False\<rparr>,
          sent = [], focus_in = False, edit_in = False\<rparr>" True]
        markEdited_spec [of "\<lparr>flags = \<lparr>hasFocus = True, touched = True, edited = True\<rparr>,
          sent = [], focus_in = True, edit_in = True\<rparr>" False]
  by simp

section \<open>The invariants of the status flags\<close>

lemma combine_fold_hasFocus:
  "hasFocus (foldl combine_each r fs) = (hasFocus r \<or> list_ex hasFocus fs)"
  by (induction fs arbitrary: r) (auto simp: combine_each_def Let_def)

lemma combine_fold_edited:
  "edited (foldl combine_each r fs) = (edited r \<or> list_ex edited fs)"
  by (induction fs arbitrary: r) (auto simp: combine_each_def Let_def)

lemma combine_fold_touched:
  "touched (foldl combine_each r fs)
     = (touched r \<or> list_ex (\<lambda>f. touched f \<or> hasFocus f \<or> edited f) fs)"
  by (induction fs arbitrary: r) (auto simp: combine_each_def Let_def)

lemma combineFlags_ok: "flags_ok (combineFlags fs)"
  unfolding flags_ok_def combineFlags_def
  by (simp add: combine_fold_hasFocus combine_fold_edited combine_fold_touched)
     (induction fs; auto)

lemma updateFlags_ok: "flags_ok fl \<Longrightarrow> flags_ok (updateFlags fl hf ed)"
  by (auto simp: flags_ok_def updateFlags_def Let_def)

lemma set_flags_ok: "status_ok s \<Longrightarrow> flags_ok f \<Longrightarrow> status_ok (set_flags f s)"
  by (simp add: status_ok_def set_flags_def)

lemma markTouched_ok: "status_ok s \<Longrightarrow> status_ok (markTouched t s)"
  by (auto simp: markTouched_def Let_def flags_ok_def status_ok_def set_flags_def)

lemma markEdited_ok: "status_ok s \<Longrightarrow> status_ok (markEdited e s)"
  by (auto simp: markEdited_def Let_def flags_ok_def status_ok_def set_flags_def)

lemma status_step_ok:
  assumes "status_ok s"
  shows "status_ok (status_step s ev)"
proof (cases ev)
  case (FocusEvent hf)
  from assms have "status_ok (s\<lparr>focus_in := hf\<rparr>)" and "flags_ok (flags s)"
    by (simp_all add: status_ok_def)
  with FocusEvent show ?thesis by (simp add: set_flags_ok updateFlags_ok)
next
  case (EditEvent ed)
  from assms have "status_ok (s\<lparr>edit_in := ed\<rparr>)" and "flags_ok (flags s)"
    by (simp_all add: status_ok_def)
  with EditEvent show ?thesis by (simp add: set_flags_ok updateFlags_ok)
next
  case (MarkTouched t)
  with assms show ?thesis by (simp add: markTouched_ok)
next
  case (MarkEdited e)
  with assms show ?thesis by (simp add: markEdited_ok)
next
  case (ChildrenEvent fs)
  with assms show ?thesis by (simp add: set_flags_ok combineFlags_ok)
qed

lemma foldl_status_ok: "status_ok s \<Longrightarrow> status_ok (foldl status_step s evs)"
  by (induction evs arbitrary: s) (simp_all add: status_step_ok)

lemma new_status_ok: "status_ok new_InControlStatus"
  by (simp add: status_ok_def new_InControlStatus_def flags_ok_def defaultFlags_def)

text \<open>
  C7. After any sequence of focus and edit events, \<open>markTouched\<close>/\<open>markEdited\<close> calls
  and container re-aggregations, starting from the default flags, the current flags
  and every flags value the tracker has sent satisfy \<open>edited \<longrightarrow> touched\<close> and
  \<open>hasFocus \<longrightarrow> touched\<close>.
\<close>

theorem status_invariant:
  "(edited (flags (status_run evs)) \<longrightarrow> touched (flags (status_run evs)))
   \<and> (hasFocus (flags (status_run evs)) \<longrightarrow> touched (flags (status_run evs)))
   \<and> list_all (\<lambda>f. (edited f \<longrightarrow> touched f) \<and> (hasFocus f \<longrightarrow> touched f))
        (sent (status_run evs))"
proof -
  have ok: "status_ok (status_run evs)"
    unfolding status_run_def by (rule foldl_status_ok [OF new_status_ok])
  have "list_all (\<lambda>f. (edited f \<longrightarrow> touched f) \<and> (hasFocus f \<longrightarrow> touched f)) xs"
    if "list_all flags_ok xs" for xs
    using that by (induction xs) (auto simp: flags_ok_def)
  with ok show ?thesis by (auto simp: status_ok_def flags_ok_def)
qed

theorem status_invariant_witness:
  "edited (flags (status_run [FocusEvent True, EditEvent True, MarkEdited False, MarkEdited True]))
   \<and> hasFocus (flags (status_run [FocusEvent True, EditEvent True, MarkEdited False, MarkEdited True]))
   \<and> touched (flags (status_run [FocusEvent True, EditEvent True, MarkEdited False, MarkEdited True]))"
  using status_invariant [of "[FocusEvent True, EditEvent True, MarkEdited False, MarkEdited True]"]
  by (simp add: status_run_def new_InControlStatus_def defaultFlags_def updateFlags_def
      set_flags_def markEdited_def Let_def)

section \<open>The aggregate flags of a container\<close>

lemma container_run_children:
  "fst (foldl container_call (cs, s) calls) = children_after cs calls"
proof (induction calls arbitrary: cs s)
  case Nil
  then show ?case by simp
next
  case (Cons call calls)
  show ?case
  proof (cases call)
    case (FromContainer ev)
    then show ?thesis
      using Cons.IH [of "snapshot_step cs ev" "set_flags (containerFlags (snapshot_step cs ev)) s"]
      by (simp add: container_step_def Let_def)
  next
    case (CallMarkTouched t)
    then show ?thesis using Cons.IH [of cs "markTouched t s"] by simp
  next
    case (CallMarkEdited e)
    then show ?thesis using Cons.IH [of cs "markEdited e s"] by simp
  qed
qed

lemma snapshot_step_set:
  "set (snapshot_step cs (SetControl k f)) = insert (k, f) {p \<in> set cs. fst p \<noteq> k}"
  "set (snapshot_step cs (RemoveControl k)) = {p \<in> set cs. fst p \<noteq> k}"
  "set (snapshot_step cs (StatusSent k f))
     = {p \<in> set cs. fst p \<noteq> k} \<union> (if k \<in> fst ` set cs then {(k, f)} else {})"
  by (auto simp add: image_iff)

lemma list_ex_snd: "list_ex P (map snd cs) = (\<exists>p \<in> set cs. P (snd p))"
  by (induction cs) auto

text \<open>
  C8. Whatever was called before on the container and on its status (changes of
  the child collection, changes of children's flags, \<open>markTouched\<close> and \<open>markEdited\<close> on
  the container's own status), right after a change of the child collection or of a
  child's flags the flags of the container's status are \<open>combineFlags\<close> of the flags
  of the children the container then has, and of nothing else: \<open>hasFocus\<close> and \<open>edited\<close>
  hold when some current child has them, \<open>touched\<close> when some current child is touched,
  has focus or is edited. The current children are the earlier ones without the
  control that was put, replaced or removed, or whose flags changed, and with the new
  control or flags; the calls on the status do not change them. \<open>combineFlags\<close> is the
  OR-fold of any list of flags.
\<close>

theorem container_or_fold:
  "flags (snd (container_run (cs, s) (calls @ [FromContainer ev])))
     = combineFlags (map snd (snapshot_step (children_after cs calls) ev))
   \<and> fst (container_run (cs, s) (calls @ [FromContainer ev]))
     = snapshot_step (children_after cs calls) ev
   \<and> hasFocus (flags (snd (container_run (cs, s) (calls @ [FromContainer ev]))))
     = (\<exists>p \<in> set (snapshot_step (children_after cs calls) ev). hasFocus (snd p))
   \<and> edited (flags (snd (container_run (cs, s) (calls @ [FromContainer ev]))))
     = (\<exists>p \<in> set (snapshot_step (children_after cs calls) ev). edited (snd p))
   \<and> touched (flags (snd (container_run (cs, s) (calls @ [FromContainer ev]))))
     = (\<exists>p \<in> set (snapshot_step (children_after cs calls) ev).
          touched (snd p) \<or> hasFocus (snd p) \<or> edited (snd p))
   \<and> set (snapshot_step cs (SetControl k f)) = insert (k, f) {p \<in> set cs. fst p \<noteq> k}
   \<and> set (snapshot_step cs (RemoveControl k)) = {p \<in> set cs. fst p \<noteq> k}
   \<and> set (snapshot_step cs (StatusSent k f))
     = {p \<in> set cs. fst p \<noteq> k} \<union> (if k \<in> fst ` set cs then {(k, f)} else {})
   \<and> children_after cs (calls @ [CallMarkTouched t]) = children_after cs calls
   \<and> children_after cs (calls @ [CallMarkEdited e]) = children_after cs calls
   \<and> hasFocus (combineFlags fs) = list_ex hasFocus fs
   \<and> edited (combineFlags fs) = list_ex edited fs
   \<and> touched (combineFlags fs) = list_ex (\<lambda>f. touched f \<or> hasFocus f \<or> edited f) fs"
proof -
  obtain cs1 s1 where before: "foldl container_call (cs, s) calls = (cs1, s1)"
    by (cases "foldl container_call (cs, s) calls")
  with container_run_children [of cs s calls] have cs1: "cs1 = children_after cs calls"
    by simp
  have after: "container_run (cs, s) (calls @ [FromContainer ev])
      = (snapshot_step cs1 ev, set_flags (combineFlags (map snd (snapshot_step cs1 ev))) s1)"
    using before
    by (simp add: container_run_def container_step_def containerFlags_def
        controlStatuses_def Let_def)
  have fold: "hasFocus (combineFlags gs) = list_ex hasFocus gs"
    "edited (combineFlags gs) = list_ex edited gs"
    "touched (combineFlags gs) = list_ex (\<lambda>f. touched f \<or> hasFocus f \<or> edited f) gs" for gs
    by (simp_all add: combineFlags_def combine_fold_hasFocus combine_fold_edited
        combine_fold_touched)
  have kept: "children_after cs (calls @ [call]) = children_after cs calls"
    if "call = CallMarkTouched t \<or> call = CallMarkEdited e" for call
    using that by (induction cs calls rule: children_after.induct) auto
  show ?thesis
    unfolding after cs1
    using kept [of "CallMarkTouched t"] kept [of "CallMarkEdited e"]
    by (simp add: set_flags_def fold list_ex_snd snapshot_step_set del: snapshot_step.simps)
qed

text \<open>
  The example of the specification: children \<open>A\<close> (nothing set) and \<open>B\<close> (touched and
  edited) aggregate to touched and edited; the container's status is then marked
  untouched by a caller; after \<open>B\<close> is removed and a focused \<open>C\<close> is added the aggregate is
  touched, focused and not edited.
\<close>

theorem container_or_fold_witness:
  "flags (snd (container_run ([(0, defaultFlags)], new_InControlStatus)
       ([] @ [FromContainer (SetControl 1 \<lparr>hasFocus = False, touched = True, edited = True\<rparr>)])))
     = \<lparr>hasFocus = False, touched = True, edited = True\<rparr>
   \<and> flags (snd (container_run ([(0, defaultFlags)], new_InControlStatus)
       ([FromContainer (SetControl 1 \<lparr>hasFocus = False, touched = True, edited = True\<rparr>),
         CallMarkTouched False, FromContainer (RemoveControl 1)]
        @ [FromContainer (SetControl 2 \<lparr>hasFocus = True, touched = False, edited = False\<rparr>)])))
     = \<lparr>hasFocus = True, touched = True, edited = False\<rparr>"
  using container_or_fold [of "[(0, defaultFlags)]" new_InControlStatus "[]"
          "SetControl 1 \<lparr>hasFocus = False, touched = True, edited = True\<rparr>"]
        container_or_fold [of "[(0, defaultFlags)]" new_InControlStatus
          "[FromContainer (SetControl 1 \<lparr>hasFocus = False, touched = True, edited = True\<rparr>),
            CallMarkTouched False, FromContainer (RemoveControl 1)]"
          "SetControl 2 \<lparr>hasFocus = True, touched = False, edited = False\<rparr>"]
  by (simp add: combineFlags_def combine_each_def defaultFlags_def Let_def)

text \<open>
  Between two aggregations the flags need not be the fold. A container with one
  child, nothing set: \<open>markEdited()\<close> on the container's status makes it touched and
  edited, while the fold over the children is all false. A container with one child,
  touched and edited: \<open>markTouched(false)\<close> on the container's status clears both
  flags, while the fold is touched and edited.
\<close>

theorem container_fold_overridden:
  "flags (snd (container_run ([], new_InControlStatus)
       [FromContainer (SetControl 0 defaultFlags), CallMarkEdited True]))
     = \<lparr>hasFocus = False, touched = True, edited = True\<rparr>
   \<and> containerFlags (fst (container_run ([], new_InControlStatus)
       [FromContainer (SetControl 0 defaultFlags), CallMarkEdited True]))
     = \<lparr>hasFocus = False, touched = False, edited = False\<rparr>
   \<and> flags (snd (container_run ([], new_InControlStatus)
       [FromContainer (SetControl 0 \<lparr>hasFocus = False, touched = True, edited = True\<rparr>),
        CallMarkTouched False]))
     = \<lparr>hasFocus = False, touched = False, edited = False\<rparr>
   \<and> containerFlags (fst (container_run ([], new_InControlStatus)
       [FromContainer (SetControl 0 \<lparr>hasFocus = False, touched = True, edited = True\<rparr>),
        CallMarkTouched False]))
     = \<lparr>hasFocus = False, touched = True, edited = True\<rparr>
   \<and> flags (snd (container_run ([], new_InControlStatus)
       [FromContainer (SetControl 0 defaultFlags), CallMarkEdited True]))
     \<noteq> containerFlags (fst (container_run ([], new_InControlStatus)
       [FromContainer (SetControl 0 defaultFlags), CallMarkEdited True]))"
  by (simp add: container_run_def container_step_def containerFlags_def controlStatuses_def
      combineFlags_def combine_each_def defaultFlags_def new_InControlStatus_def
      set_flags_def markEdited_def markTouched_def Let_def)

section \<open>Data suppression\<close>








section \<open>Aspect identity\<close>

lemma store_alloc_props:
  "aspects (snd (store k (alloc b c))) = (aspects c)(k \<mapsto> fst (store k (alloc b c)))"
  "applyTo_calls (snd (store k (alloc b c))) = applyTo_calls c"
  by (simp_all add: store_def alloc_def split: option.splits)

lemma lookup_inv:
  shows "InControl__aspect n A k c = Some r \<Longrightarrow> well_founded A rank \<Longrightarrow> cache_ok P c
           \<Longrightarrow> (\<forall>p\<in>P. rank k < rank p)
           \<Longrightarrow> cache_ok P (snd r) \<and> aspects c \<subseteq>\<^sub>m aspects (snd r)
               \<and> aspects (snd r) k = Some (fst r)"
    and "applyTo_lookups n A ds c = Some c' \<Longrightarrow> well_founded A rank \<Longrightarrow> cache_ok P c
           \<Longrightarrow> (\<forall>d\<in>set ds. \<forall>p\<in>P. rank d < rank p)
           \<Longrightarrow> cache_ok P c' \<and> aspects c \<subseteq>\<^sub>m aspects c'"
proof (induction n A k c and n A ds c arbitrary: r P and c' P
       rule: InControl__aspect_applyTo_lookups.induct)
  case (1 A k c)
  then show ?case by simp
next
  case (2 n A k c)
  note wf = "2.prems"(2) and ok = "2.prems"(3) and above = "2.prems"(4)
  show ?case
  proof (cases "aspects c k")
    case (Some existing)
    with "2.prems"(1) ok show ?thesis by auto
  next
    case None
    have kP: "k \<notin> P" using above by auto
    show ?thesis
    proof (cases "applyAspect A k")
      case (Some built)
      with None "2.prems"(1) have r: "r = store k (alloc built c)" by simp
      have "cache_ok P (snd r)"
        using ok kP unfolding cache_ok_def r store_alloc_props by auto
      moreover have "aspects c \<subseteq>\<^sub>m aspects (snd r)"
        unfolding r store_alloc_props using None by (auto simp add: map_le_def)
      moreover have "aspects (snd r) k = Some (fst r)"
        by (simp add: r store_alloc_props)
      ultimately show ?thesis by blast
    next
      case hookNone: None
      let ?c0 = "c\<lparr>applyTo_calls := applyTo_calls c @ [k]\<rparr>"
      from None hookNone "2.prems"(1) obtain c1 where
        c1: "applyTo_lookups n A (looks_up A k) ?c0 = Some c1"
        and r: "r = store k (alloc (applyTo A k) c1)"
        by (auto split: option.splits)
      have notin: "k \<notin> set (applyTo_calls c)"
        using ok None kP unfolding cache_ok_def by auto
      have ok0: "cache_ok (insert k P) ?c0"
        using ok None notin unfolding cache_ok_def by auto
      have ranks: "\<forall>d\<in>set (looks_up A k). \<forall>p\<in>insert k P. rank d < rank p"
      proof (intro ballI)
        fix d p
        assume d: "d \<in> set (looks_up A k)" and p: "p \<in> insert k P"
        from wf d have dk: "rank d < rank k" by (auto simp add: well_founded_def)
        show "rank d < rank p"
        proof (cases "p = k")
          case True
          with dk show ?thesis by simp
        next
          case False
          with p have "p \<in> P" by simp
          with above have "rank k < rank p" by simp
          with dk show ?thesis by simp
        qed
      qed
      from "2.IH" [OF None hookNone c1 wf ok0 ranks]
      have ok1: "cache_ok (insert k P) c1" and le1: "aspects ?c0 \<subseteq>\<^sub>m aspects c1" by simp_all
      have "cache_ok P (snd r)"
        using ok1 kP unfolding cache_ok_def r store_alloc_props by auto
      moreover have "aspects c \<subseteq>\<^sub>m aspects (snd r)"
      proof -
        have "k \<notin> dom (aspects c1)" using ok1 unfolding cache_ok_def by auto
        then have "aspects c1 \<subseteq>\<^sub>m (aspects c1)(k \<mapsto> fst r)"
          by (auto simp: map_le_def)
        moreover from le1 have "aspects c \<subseteq>\<^sub>m aspects c1" by simp
        ultimately have "aspects c \<subseteq>\<^sub>m (aspects c1)(k \<mapsto> fst r)" by (rule map_le_trans [rotated])
        then show ?thesis by (simp add: r store_alloc_props)
      qed
      moreover have "aspects (snd r) k = Some (fst r)"
        by (simp add: r store_alloc_props)
      ultimately show ?thesis by blast
    qed
  qed
next
  case (3 n A c)
  then show ?case by simp
next
  case (4 n A d ds c)
  note wf = "4.prems"(2)
  from "4.prems"(1) obtain r where r: "InControl__aspect n A d c = Some r"
    and rest: "applyTo_lookups n A ds (snd r) = Some c'"
    by (auto split: option.splits)
  have "\<forall>p\<in>P. rank d < rank p" using "4.prems"(4) by simp
  from "4.IH"(1) [OF r wf "4.prems"(3) this]
  have ok: "cache_ok P (snd r)" and le: "aspects c \<subseteq>\<^sub>m aspects (snd r)" by simp_all
  have "\<forall>d\<in>set ds. \<forall>p\<in>P. rank d < rank p" using "4.prems"(4) by simp
  from "4.IH"(2) [OF r rest wf ok this]
  have ok': "cache_ok P c'" and le': "aspects (snd r) \<subseteq>\<^sub>m aspects c'" by simp_all
  from le le' have "aspects c \<subseteq>\<^sub>m aspects c'" by (rule map_le_trans)
  with ok' show ?case by simp
qed

lemma lookup_total:
  shows "well_founded A rank \<Longrightarrow> rank k < n \<Longrightarrow> InControl__aspect n A k c \<noteq> None"
    and "well_founded A rank \<Longrightarrow> (\<forall>d\<in>set ds. rank d < n)
           \<Longrightarrow> applyTo_lookups n A ds c \<noteq> None"
proof (induction n A k c and n A ds c rule: InControl__aspect_applyTo_lookups.induct)
  case (1 A k c)
  then show ?case by simp
next
  case (2 n A k c)
  note wf = "2.prems"(1)
  have "rank d < n" if "d \<in> set (looks_up A k)" for d
  proof -
    from wf that have "rank d < rank k" by (auto simp add: well_founded_def)
    with "2.prems"(2) show ?thesis by simp
  qed
  then have "applyTo_lookups n A (looks_up A k) (c\<lparr>applyTo_calls := applyTo_calls c @ [k]\<rparr>)
      \<noteq> None"
    if "aspects c k = None" "applyAspect A k = None"
    using "2.IH" [OF that wf] by blast
  then show ?case by (cases "aspects c k"; cases "applyAspect A k") auto
next
  case (3 n A c)
  then show ?case by simp
next
  case (4 n A d ds c)
  then show ?case by (auto split: option.splits)
qed


lemma aspect_hit:
  "aspects c k = Some a \<Longrightarrow> aspect (Suc n) A k c = Some (inst a, c)"
  by (simp add: aspect_def)

lemma aspect_step:
  assumes "well_founded A rank" and "rank k < n" and "cache_ok {} c"
  shows "\<exists>a c'. aspect n A k c = Some (inst a, c') \<and> cache_ok {} c'
           \<and> aspects c \<subseteq>\<^sub>m aspects c' \<and> aspects c' k = Some a"
proof -
  from lookup_total(1) [OF assms(1,2)] obtain r where r: "InControl__aspect n A k c = Some r"
    by blast
  from lookup_inv(1) [OF r assms(1,3)]
  have "cache_ok {} (snd r) \<and> aspects c \<subseteq>\<^sub>m aspects (snd r)
      \<and> aspects (snd r) k = Some (fst r)"
    by simp
  with r show ?thesis by (simp add: aspect_def)
qed

lemma aspect_calls_run:
  assumes wf: "well_founded A rank"
  shows "(\<forall>k\<in>set ks. rank k < n) \<Longrightarrow> cache_ok {} c \<Longrightarrow>
     \<exists>rs c'. aspect_calls n A ks c = Some (rs, c') \<and> length rs = length ks
        \<and> cache_ok {} c' \<and> aspects c \<subseteq>\<^sub>m aspects c'
        \<and> (\<forall>i<length ks. \<exists>a. aspects c' (ks ! i) = Some a \<and> rs ! i = inst a)"
proof (induction ks arbitrary: c)
  case Nil
  then show ?case by simp
next
  case (Cons k ks)
  from Cons.prems(1) have rk: "rank k < n" and rks: "\<forall>k\<in>set ks. rank k < n" by simp_all
  from aspect_step [OF wf rk Cons.prems(2)] obtain a c1 where
    step: "aspect n A k c = Some (inst a, c1)" and ok1: "cache_ok {} c1"
    and le1: "aspects c \<subseteq>\<^sub>m aspects c1" and a: "aspects c1 k = Some a"
    by blast
  from Cons.IH [OF rks ok1] obtain rs c' where
    run: "aspect_calls n A ks c1 = Some (rs, c')" and len: "length rs = length ks"
    and ok': "cache_ok {} c'" and le': "aspects c1 \<subseteq>\<^sub>m aspects c'"
    and res: "\<forall>i<length ks. \<exists>a. aspects c' (ks ! i) = Some a \<and> rs ! i = inst a"
    by blast
  from le' a have a': "aspects c' k = Some a"
    by (metis domI map_le_def)
  have "\<exists>b. aspects c' ((k # ks) ! i) = Some b \<and> (inst a # rs) ! i = inst b"
    if "i < length (k # ks)" for i
  proof (cases i)
    case 0
    with a' show ?thesis by simp
  next
    case (Suc j)
    with that res show ?thesis by simp
  qed
  moreover from le1 le' have "aspects c \<subseteq>\<^sub>m aspects c'" by (rule map_le_trans)
  ultimately show ?case using step run len ok' by simp
qed

text \<open>
  C2. When the lookups of the keys do not go in circles and the fuel exceeds the
  ranks of the keys asked for, any sequence of lookups on a new control returns; two
  lookups of the same key return the identical instance (the same address, or both
  \<open>null\<close>); no key's \<open>applyTo\<close> is invoked twice, the lookups made by other keys'
  applications included; and every key asked for, looked up again afterwards, gives
  the instance it gave before and leaves the control as it is, an absent instance
  included: the applied object is what the cache holds.
\<close>

theorem aspect_identity_stable:
  assumes "well_founded A rank" and "\<forall>k\<in>set ks. rank k < n"
  shows "\<exists>rs c'. aspect_calls n A ks new_InControl = Some (rs, c')
      \<and> length rs = length ks
      \<and> (\<forall>i j. i < length ks \<and> j < length ks \<and> ks ! i = ks ! j \<longrightarrow> rs ! i = rs ! j)
      \<and> distinct (applyTo_calls c')
      \<and> (\<forall>i<length ks. aspect n A (ks ! i) c' = Some (rs ! i, c'))"
proof -
  have "cache_ok {} (new_InControl :: ('a, 'b) InControl)"
    by (simp add: cache_ok_def new_InControl_def)
  from aspect_calls_run [OF assms this] obtain rs c' where
    run: "aspect_calls n A ks new_InControl = Some (rs, c')" and len: "length rs = length ks"
    and ok: "cache_ok {} c'"
    and res: "\<forall>i<length ks. \<exists>a. aspects c' (ks ! i) = Some a \<and> rs ! i = inst a"
    by blast
  have same: "rs ! i = rs ! j" if "i < length ks" "j < length ks" "ks ! i = ks ! j" for i j
  proof -
    from res that(1) obtain a where a: "aspects c' (ks ! i) = Some a" "rs ! i = inst a" by blast
    from res that(2) obtain b where b: "aspects c' (ks ! j) = Some b" "rs ! j = inst b" by blast
    from a b that(3) show ?thesis by simp
  qed
  have again: "aspect n A (ks ! i) c' = Some (rs ! i, c')" if i: "i < length ks" for i
  proof -
    from res i obtain a where a: "aspects c' (ks ! i) = Some a" "rs ! i = inst a" by blast
    from i have "ks ! i \<in> set ks" by simp
    with assms(2) have "rank (ks ! i) < n" by blast
    then obtain m where "n = Suc m" by (cases n) simp_all
    with a show ?thesis by (simp add: aspect_hit)
  qed
  from ok have "distinct (applyTo_calls c')" by (simp add: cache_ok_def)
  with run len same again show ?thesis by blast
qed

text \<open>
  On a plain control: the status aspect is applied once and returned twice, the
  focus aspect, \<open>null\<close>, applied once by the status aspect and never again.
\<close>

theorem aspect_identity_stable_witness:
  "map_option fst (aspect_calls (Suc (Suc (Suc 0))) plain_control
       [''status'', ''focus'', ''status'', ''data'', ''focus''] new_InControl)
     = Some [Some (0, ''status''), None, Some (0, ''status''), Some (2, ''data''), None]
   \<and> map_option (\<lambda>r. applyTo_calls (snd r)) (aspect_calls (Suc (Suc (Suc 0))) plain_control
       [''status'', ''focus'', ''status'', ''data'', ''focus''] new_InControl)
     = Some [''status'', ''container'', ''element'', ''focus'', ''data'', ''mode'']"
proof -
  have wf: "well_founded plain_control plain_rank"
    by (auto simp add: well_founded_def plain_control_def plain_rank_def split: if_splits)
  have ranks: "\<forall>k\<in>set [''status'', ''focus'', ''status'', ''data'', ''focus''].
      plain_rank k < Suc (Suc (Suc 0))"
    by (simp add: plain_rank_def)
  show ?thesis
    using aspect_identity_stable [OF wf ranks]
    by (simp add: aspect_def plain_control_def new_InControl_def store_def alloc_def)
qed

section \<open>Propagation between a control and its conversion\<close>

text \<open>
  A write of a defined value \<open>v\<close> to the source that changes it: the source sends
  once, \<open>_it\<close> is assigned once, with \<open>set(v)\<close> under the next revision, \<open>on\<close> sends when
  the converted value changed, and nothing is assigned to the source. The write
  returns unless a later receiver of the source throws.
\<close>

lemma forward_once:
  assumes "quiescent s" and "v \<noteq> src_it s" and "v \<noteq> None" and "set_cv cv v = Inr w"
  shows "src_set_it (Suc (Suc n)) cv v s =
     (s\<lparr>src_it := v, lastRev := Suc (lastRev s), it := (w, Suc (lastRev s)),
        events := events s @ [SrcSent v (src_it s), ItAssigned w (Suc (lastRev s))]
                 @ (if w \<noteq> fst (it s) then [OnSent w (fst (it s))] else [])\<rparr>,
      case src_later cv v of None \<Rightarrow> Returned | Some e \<Rightarrow> Thrown e)"
  using assms by (simp add: quiescent_def Let_def split: option.splits)

text \<open>
  A write of \<open>w\<close> to the converted control that changes it: \<open>_it\<close> is assigned once,
  \<open>on\<close> sends once, \<open>get(w)\<close> is assigned to the source once, the source sends when its
  value changed, and no forward conversion follows. When a later receiver of the
  source throws, the assignment to the source throws inside \<open>try\<close>; the slot is empty
  all the same.
\<close>

lemma backward_once:
  assumes "quiescent s" and "w \<noteq> fst (it s)" and "get_cv cv w = Inr b"
  shows "InConverted_set_it (Suc (Suc n)) cv w s =
     (s\<lparr>src_it := b, lastRev := Suc (lastRev s), it := (w, Suc (lastRev s)),
        events := events s @ [ItAssigned w (Suc (lastRev s)), OnSent w (fst (it s)),
                              SrcAssigned b]
                 @ (if b \<noteq> src_it s then [SrcSent b (src_it s)] else [])\<rparr>,
      if b \<noteq> src_it s
      then (case src_later cv b of None \<Rightarrow> Returned | Some e \<Rightarrow> Thrown e)
      else Returned)"
  using assms
  by (auto simp add: quiescent_def Let_def InConverted_set_it_def split: option.splits)

lemma set_throws:
  assumes "quiescent s" and "v \<noteq> src_it s" and "v \<noteq> None" and "set_cv cv v = Inl e"
  shows "src_set_it (Suc n) cv v s =
     (s\<lparr>src_it := v, events := events s @ [SrcSent v (src_it s)]\<rparr>, Thrown e)"
  using assms by (simp add: quiescent_def Let_def)

lemma get_throws:
  assumes "quiescent s" and "w \<noteq> fst (it s)" and "get_cv cv w = Inl e"
  shows "InConverted_set_it (Suc n) cv w s =
     (s\<lparr>it := (w, Suc (lastRev s)), lastRev := Suc (lastRev s),
        events := events s @ [ItAssigned w (Suc (lastRev s)), OnSent w (fst (it s))]\<rparr>,
      Thrown e)"
  using assms by (simp add: quiescent_def InConverted_set_it_def Let_def)

text \<open>
  Two units of fuel are enough: an edit of a quiescent state never runs out of
  fuel, and it ends, returning or throwing, in a quiescent state.
\<close>

lemma edit_total:
  assumes "quiescent s"
  shows "snd (edit (Suc (Suc n)) cv ed s) \<noteq> OutOfFuel"
    and "quiescent (fst (edit (Suc (Suc n)) cv ed s))"
  using assms
  by (cases ed; auto simp add: quiescent_def Let_def InConverted_set_it_def
      split: sum.splits option.splits)+

lemma it_on_backward:
  "backward s = None \<Longrightarrow> backward (fst (it_on n cv vr s)) = None"
  by (simp add: Let_def split: sum.splits)

lemma it_set_it_backward:
  "backward s = None \<Longrightarrow> backward (fst (it_set_it n cv vr s)) = None"
  by (cases n) (simp_all add: Let_def split: sum.splits)

lemma src_on_backward:
  "backward s = None \<Longrightarrow> backward (fst (src_on n cv v s)) = None"
  by (simp add: it_set_it_backward split: sum.splits)

lemma src_set_it_backward:
  "backward s = None \<Longrightarrow> backward (fst (src_set_it n cv v s)) = None"
proof (cases n)
  case 0
  assume "backward s = None"
  with 0 show ?thesis by simp
next
  case (Suc m)
  assume none: "backward s = None"
  define r where
    "r = src_on m cv v (s\<lparr>src_it := v, events := events s @ [SrcSent v (src_it s)]\<rparr>)"
  have "backward (fst r) = None"
    unfolding r_def by (rule src_on_backward) (simp add: none)
  moreover have "fst (src_set_it n cv v s) = (if v \<noteq> src_it s then fst r else s)"
    unfolding r_def Suc
    by (simp add: Let_def del: src_on.simps split: outcome.splits option.splits)
  ultimately show ?thesis using none by simp
qed

lemma edit_backward:
  "backward s = None \<Longrightarrow> backward (fst (edit n cv ed s)) = None"
  by (cases ed) (simp_all add: src_set_it_backward it_set_it_backward InConverted_set_it_def
      Let_def)

lemma events_change:
  shows "list_all is_change (events s) \<Longrightarrow>
           list_all is_change (events (fst (src_set_it n cv v s)))"
    and "list_all is_change (events s) \<Longrightarrow>
           list_all is_change (events (fst (src_on n cv v s)))"
    and "list_all is_change (events s) \<Longrightarrow>
           list_all is_change (events (fst (it_set_it n cv vr s)))"
    and "list_all is_change (events s) \<Longrightarrow>
           list_all is_change (events (fst (it_on n cv vr s)))"
proof (induction n cv v s and n cv v s and n cv vr s and n cv vr s
       rule: src_set_it_src_on_it_set_it_it_on.induct)
  case (1 cv v s)
  then show ?case by simp
next
  case (2 n cv v s)
  show ?case
  proof (cases "v \<noteq> src_it s")
    case True
    from "2.prems" have "list_all is_change
        (events (s\<lparr>src_it := v, events := events s @ [SrcSent v (src_it s)]\<rparr>))"
      by simp
    from "2.IH" [OF True this] True show ?thesis
      by (simp add: Let_def del: src_on.simps split: outcome.splits option.splits)
  next
    case False
    with "2.prems" show ?thesis by simp
  qed
next
  case (3 n cv v s)
  then show ?case by (simp split: sum.splits)
next
  case (4 cv vr s)
  then show ?case by simp
next
  case (5 n cv vr s)
  then show ?case by (simp add: Let_def)
next
  case (6 n cv vr s)
  then show ?case by (simp add: Let_def split: sum.splits)
qed

lemma edit_change:
  "list_all is_change (events s) \<Longrightarrow> list_all is_change (events (fst (edit n cv ed s)))"
  by (cases ed) (simp_all add: events_change InConverted_set_it_def Let_def)

text \<open>
  The example of the specification, \<open>set = x => x + 1\<close> and \<open>get = y => y - 1\<close> over
  a source that holds 1: a write of 5 to the source assigns 6 to the converted control
  once and nothing to the source; a write of 10 to the converted control assigns 9 to
  the source once and nothing more to the converted control.
\<close>

lemma plus_one_example:
  "edit (Suc (Suc 0)) plus_one (WriteSource (Some 5))
        \<lparr>src_it = Some 1, it = (2, 0), lastRev = 0, backward = None, events = []\<rparr>
     = (\<lparr>src_it = Some 5, it = (6, 1), lastRev = 1, backward = None,
         events = [SrcSent (Some 5) (Some 1), ItAssigned 6 1, OnSent 6 2]\<rparr>, Returned)
   \<and> edit (Suc (Suc 0)) plus_one (WriteConverted 10)
        \<lparr>src_it = Some 1, it = (2, 0), lastRev = 0, backward = None, events = []\<rparr>
     = (\<lparr>src_it = Some 9, it = (10, 1), lastRev = 1, backward = None,
         events = [ItAssigned 10 1, OnSent 10 2, SrcAssigned (Some 9),
                   SrcSent (Some 9) (Some 1)]\<rparr>, Returned)"
  by (simp add: plus_one_def InConverted_set_it_def Let_def)

text \<open>
  C1. The source of the example is of type \<open>number | undefined\<close> and holds 1, so the
  converted control holds 2. A caller writes \<open>undefined\<close> to the source. The source
  stores it and sends it; the receiver compares it with the empty in-flight slot,
  which is \<open>undefined\<close> too, takes the write for the echo of a backward write and
  converts nothing: \<open>_it\<close> is not assigned, the converted control still holds 2, while
  \<open>set(undefined)\<close> is \<open>-1\<close>. The edit is not propagated at all.
\<close>

theorem undefined_not_forwarded:
  "new_InConverted plus_one (Some 1)
     = Inr \<lparr>src_it = Some 1, it = (2, 0), lastRev = 0, backward = None, events = []\<rparr>
   \<and> edit (Suc (Suc n)) plus_one (WriteSource None)
        \<lparr>src_it = Some 1, it = (2, 0), lastRev = 0, backward = None, events = []\<rparr>
     = (\<lparr>src_it = None, it = (2, 0), lastRev = 0, backward = None,
         events = [SrcSent None (Some 1)]\<rparr>, Returned)
   \<and> set_cv plus_one None = Inr (- 1)"
  by (simp add: new_InConverted_def plus_one_def)

text \<open>
  C4. From a quiescent state: when \<open>set\<close> throws during a write to the source, or
  \<open>get\<close> during a write to the converted control, or the assignment of the backward
  value to the source throws inside \<open>try\<close> (a later receiver of the source throws:
  the \<open>set\<close> of a second control converted from it), the write ends with that exception
  at its caller. Whatever an edit does and however it ends (with any fuel, returning
  or throwing), the in-flight slot is empty afterwards; in the third case the source
  holds the backward value already. With two units of fuel the edit ends and leaves a
  quiescent state. So the next edit is handled as any other: a write to the converted
  control is converted back and stored in the source, and a write of a defined value
  to the source is converted and stored in the converted control.
\<close>

theorem conversion_failure_released:
  assumes "quiescent s"
  shows "(v \<noteq> src_it s \<and> v \<noteq> None \<and> set_cv cv v = Inl e \<longrightarrow>
            snd (edit (Suc (Suc n)) cv (WriteSource v) s) = Thrown e)
   \<and> (w \<noteq> fst (it s) \<and> get_cv cv w = Inl e \<longrightarrow>
            snd (edit (Suc (Suc n)) cv (WriteConverted w) s) = Thrown e)
   \<and> (w \<noteq> fst (it s) \<and> get_cv cv w = Inr b \<and> b \<noteq> src_it s \<and> src_later cv b = Some e \<longrightarrow>
            snd (edit (Suc (Suc n)) cv (WriteConverted w) s) = Thrown e
            \<and> src_it (fst (edit (Suc (Suc n)) cv (WriteConverted w) s)) = b
            \<and> backward (fst (edit (Suc (Suc n)) cv (WriteConverted w) s)) = None)
   \<and> backward (fst (edit m cv ed s)) = None
   \<and> quiescent (fst (edit (Suc (Suc n)) cv ed s))
   \<and> snd (edit (Suc (Suc n)) cv ed s) \<noteq> OutOfFuel
   \<and> (w' \<noteq> fst (it (fst (edit (Suc (Suc n)) cv ed s))) \<and> get_cv cv w' = Inr b' \<longrightarrow>
        src_it (fst (edit (Suc (Suc n)) cv (WriteConverted w')
                       (fst (edit (Suc (Suc n)) cv ed s)))) = b'
        \<and> fst (it (fst (edit (Suc (Suc n)) cv (WriteConverted w')
                       (fst (edit (Suc (Suc n)) cv ed s))))) = w')
   \<and> (v' \<noteq> src_it (fst (edit (Suc (Suc n)) cv ed s)) \<and> v' \<noteq> None
        \<and> set_cv cv v' = Inr w'' \<longrightarrow>
        fst (it (fst (edit (Suc (Suc n)) cv (WriteSource v')
                       (fst (edit (Suc (Suc n)) cv ed s))))) = w''
        \<and> src_it (fst (edit (Suc (Suc n)) cv (WriteSource v')
                       (fst (edit (Suc (Suc n)) cv ed s)))) = v')"
proof -
  from assms have none: "backward s = None" by (simp add: quiescent_def)
  have q: "quiescent (fst (edit (Suc (Suc n)) cv ed s))"
    and fuel: "snd (edit (Suc (Suc n)) cv ed s) \<noteq> OutOfFuel"
    using edit_total [OF assms] by blast+
  have t1: "snd (edit (Suc (Suc n)) cv (WriteSource v) s) = Thrown e"
    if "v \<noteq> src_it s" "v \<noteq> None" "set_cv cv v = Inl e"
    using set_throws [OF assms that] by simp
  have t2: "snd (edit (Suc (Suc n)) cv (WriteConverted w) s) = Thrown e"
    if "w \<noteq> fst (it s)" "get_cv cv w = Inl e"
    using get_throws [OF assms that] by simp
  have t3: "snd (edit (Suc (Suc n)) cv (WriteConverted w) s) = Thrown e
            \<and> src_it (fst (edit (Suc (Suc n)) cv (WriteConverted w) s)) = b
            \<and> backward (fst (edit (Suc (Suc n)) cv (WriteConverted w) s)) = None"
    if "w \<noteq> fst (it s)" "get_cv cv w = Inr b" "b \<noteq> src_it s" "src_later cv b = Some e"
    using backward_once [OF assms that(1,2)] that(3,4) none by simp
  have b: "backward (fst (edit m cv ed s)) = None"
    using none by (rule edit_backward)
  have n1: "src_it (fst (edit (Suc (Suc n)) cv (WriteConverted w')
                       (fst (edit (Suc (Suc n)) cv ed s)))) = b'
        \<and> fst (it (fst (edit (Suc (Suc n)) cv (WriteConverted w')
                       (fst (edit (Suc (Suc n)) cv ed s))))) = w'"
    if "w' \<noteq> fst (it (fst (edit (Suc (Suc n)) cv ed s)))" "get_cv cv w' = Inr b'"
    using backward_once [OF q that] by simp
  have n2: "fst (it (fst (edit (Suc (Suc n)) cv (WriteSource v')
                       (fst (edit (Suc (Suc n)) cv ed s))))) = w''
        \<and> src_it (fst (edit (Suc (Suc n)) cv (WriteSource v')
                       (fst (edit (Suc (Suc n)) cv ed s)))) = v'"
    if "v' \<noteq> src_it (fst (edit (Suc (Suc n)) cv ed s))" "v' \<noteq> None" "set_cv cv v' = Inr w''"
    using forward_once [OF q that] by simp
  from t1 t2 t3 b q fuel n1 n2 show ?thesis by blast
qed

text \<open>
  With converters that throw on zero and a later receiver of the source that throws
  on 41: the three failing writes end with the exception, the slot is empty after
  each, the source holds 41 after the third, and the write after a failing one is
  propagated.
\<close>

theorem conversion_failure_released_witness:
  "snd (edit (Suc (Suc 0)) throwing (WriteSource (Some 0))
         \<lparr>src_it = Some 1, it = (2, 0), lastRev = 0, backward = None, events = []\<rparr>)
     = Thrown ''set failed''
   \<and> snd (edit (Suc (Suc 0)) throwing (WriteConverted 0)
         \<lparr>src_it = Some 1, it = (2, 0), lastRev = 0, backward = None, events = []\<rparr>)
     = Thrown ''get failed''
   \<and> edit (Suc (Suc 0)) throwing (WriteConverted 42)
         \<lparr>src_it = Some 1, it = (2, 0), lastRev = 0, backward = None, events = []\<rparr>
     = (\<lparr>src_it = Some 41, it = (42, 1), lastRev = 1, backward = None,
         events = [ItAssigned 42 1, OnSent 42 2, SrcAssigned (Some 41),
                   SrcSent (Some 41) (Some 1)]\<rparr>, Thrown ''receiver failed'')
   \<and> src_it (fst (edit (Suc (Suc 0)) throwing (WriteConverted 10)
         (fst (edit (Suc (Suc 0)) throwing (WriteConverted 42)
            \<lparr>src_it = Some 1, it = (2, 0), lastRev = 0, backward = None, events = []\<rparr>))))
     = Some 9
   \<and> fst (it (fst (edit (Suc (Suc 0)) throwing (WriteSource (Some 7))
         (fst (edit (Suc (Suc 0)) throwing (WriteSource (Some 0))
            \<lparr>src_it = Some 1, it = (2, 0), lastRev = 0, backward = None, events = []\<rparr>)))))
     = 8"
proof -
  have q: "quiescent
     \<lparr>src_it = Some (1::int), it = (2::int, 0), lastRev = 0, backward = None, events = []\<rparr>"
    by (simp add: quiescent_def)
  show ?thesis
    using conversion_failure_released [OF q, where cv = throwing and n = 0 and m = "Suc (Suc 0)"
        and v = "Some 0" and e = "''set failed''" and ed = "WriteConverted 42"
        and w' = 10 and b' = "Some 9"]
      conversion_failure_released [OF q, where cv = throwing and n = 0
        and w = 0 and e = "''get failed''" and ed = "WriteSource (Some 0)"
        and v' = "Some 7" and w'' = 8]
      conversion_failure_released [OF q, where cv = throwing and n = 0
        and w = 42 and b = "Some 41" and e = "''receiver failed''"]
    by (simp add: throwing_def InConverted_set_it_def Let_def)
qed

text \<open>
  C10. Writing to the converted control the value it holds returns at once: the
  state, the revision and the list of events are what they were, so nothing was sent
  and nothing was assigned to the source. No edit, in any state and with any fuel,
  adds an event of \<open>on\<close> whose two values are equal; and a write to the source adds
  one event of \<open>on\<close> when the converted value changes and none when it does not.
\<close>

theorem same_value_noop:
  "edit n cv (WriteConverted (fst (it s))) s = (s, Returned)
   \<and> (list_all is_change (events s) \<longrightarrow>
        list_all is_change (events (fst (edit n cv ed s))))
   \<and> (quiescent s \<and> v \<noteq> src_it s \<and> v \<noteq> None \<and> set_cv cv v = Inr w \<longrightarrow>
        filter is_OnSent (events (fst (edit (Suc (Suc m)) cv (WriteSource v) s)))
          = filter is_OnSent (events s)
            @ (if w \<noteq> fst (it s) then [OnSent w (fst (it s))] else []))"
proof -
  have a: "edit n cv (WriteConverted (fst (it s))) s = (s, Returned)"
    by (simp add: InConverted_set_it_def)
  have c: "filter is_OnSent (events (fst (edit (Suc (Suc m)) cv (WriteSource v) s)))
          = filter is_OnSent (events s)
            @ (if w \<noteq> fst (it s) then [OnSent w (fst (it s))] else [])"
    if "quiescent s" "v \<noteq> src_it s" "v \<noteq> None" "set_cv cv v = Inr w"
    using forward_once [OF that] by simp
  from a c edit_change show ?thesis by blast
qed

theorem same_value_noop_witness:
  "edit (Suc (Suc 0)) plus_one (WriteConverted 2)
        \<lparr>src_it = Some 1, it = (2, 0), lastRev = 0, backward = None, events = []\<rparr>
     = (\<lparr>src_it = Some 1, it = (2, 0), lastRev = 0, backward = None, events = []\<rparr>, Returned)
   \<and> list_all is_change (events (fst (edit (Suc (Suc 0)) plus_one (WriteSource (Some 5))
        \<lparr>src_it = Some 1, it = (2, 0), lastRev = 0, backward = None, events = []\<rparr>)))
   \<and> filter is_OnSent (events (fst (edit (Suc (Suc 0)) plus_one (WriteSource (Some 5))
        \<lparr>src_it = Some 1, it = (2, 0), lastRev = 0, backward = None, events = []\<rparr>)))
     = [OnSent 6 2]"
  using same_value_noop [of "Suc (Suc 0)" plus_one
      "\<lparr>src_it = Some 1, it = (2, 0), lastRev = 0, backward = None, events = []\<rparr>"
      "WriteSource (Some 5)" "Some 5" 6 0]
  by (simp add: plus_one_def quiescent_def)

section \<open>Termination forwarding\<close>

lemma done_ends: "live c \<Longrightarrow> ended_with reason (InConverted_done reason c)"
proof (induction c)
  case (ConvertedLife itd ond cs)
  then show ?case by (simp add: list_all_iff)
qed

lemma done_once: "ended_with reason c \<Longrightarrow> InConverted_done reason' c = c"
  by (cases c) simp

text \<open>
  Closing a live source with a reason ends every control converted from it, and
  every control converted from those, with that reason, once: both streams of each
  hold exactly that reason, and closing the source again changes nothing. Closing a
  converted control leaves the source as it is.
\<close>

lemma source_done_forwarded:
  "(src_done w = [] \<and> list_all live (converted w) \<longrightarrow>
      src_done (control_done reason w) = [reason]
      \<and> list_all (ended_with reason) (converted (control_done reason w))
      \<and> control_done reason' (control_done reason w) = control_done reason w)
   \<and> src_done (converted_done i reason w) = src_done w"
proof -
  have "list_all (ended_with reason) (map (InConverted_done reason) cs)"
    if "list_all live cs" for cs
    using that by (induction cs) (simp_all add: done_ends)
  then show ?thesis
    by (simp add: control_done_def converted_done_def)
qed

text \<open>
  C3. A plain value control with one converted control and its status aspect
  applied is closed with the reason \<open>R\<close>: the source and both streams of the converted
  control end with \<open>R\<close>, each once, and the stream of the status aspect's flags does not
  end.
\<close>

theorem status_not_terminated:
  "control_done ''R''
     \<lparr>src_done = [], converted = [ConvertedLife [] [] []], status_done = []\<rparr>
   = \<lparr>src_done = [''R''], converted = [ConvertedLife [''R''] [''R''] []], status_done = []\<rparr>"
  by (simp add: control_done_def)

end
